theory Spec2Isabelle
  imports Main
begin

section \<open>Data model of main.py\<close>

text \<open>
  Texts are Isabelle strings, a character standing for the code point of its number:
  the texts covered are those of code points below 256. On them the character tests
  below (\<open>str.lower\<close>, \<open>str.strip\<close>, the regular-expression classes) are those of
  Python.

  A value stored in a \<open>Dict[str, Any]\<close> of the program is a string or \<open>None\<close>
  (what \<open>dict.get\<close> returns for a missing key). A dictionary is the list of its
  items in insertion order, which is the order \<open>keys()\<close> iterates in; the keys of a
  Python dictionary are distinct.
\<close>

datatype pyval = PStr string | PNone

type_synonym dict = "(string \<times> pyval) list"

definition dict_keys :: "dict \<Rightarrow> string list" where
  "dict_keys d = map fst d"

definition dict_get :: "dict \<Rightarrow> string \<Rightarrow> pyval" where
  "dict_get d k = (case map_of d k of None \<Rightarrow> PNone | Some v \<Rightarrow> v)"

text \<open>\<open>str(x)\<close> for a string or \<open>None\<close>.\<close>

fun py_str :: "pyval \<Rightarrow> string" where
  "py_str (PStr s) = s"
| "py_str PNone = ''None''"

record FieldChange =
  field :: string
  from_value :: string
  to_value :: string
  impact :: string

record ESGCheckResult =
  rule_name :: string
  passed :: bool
  comment :: string

section \<open>compare_terms\<close>

text \<open>
  The body of the \<open>for field in v1.keys()\<close> loop, with the list \<open>changes\<close> passed
  along: \<open>continue\<close> on equal values, otherwise the impact is chosen by the
  \<open>if\<close>/\<open>elif\<close> chain and one record is appended.
\<close>

fun compare_loop :: "string list \<Rightarrow> dict \<Rightarrow> dict \<Rightarrow> FieldChange list \<Rightarrow> FieldChange list" where
  "compare_loop [] v1 v2 changes = changes"
| "compare_loop (fld # rest) v1 v2 changes =
     (let old_val = dict_get v1 fld;
          new_val = dict_get v2 fld
      in if old_val = new_val then compare_loop rest v1 v2 changes
         else
           let impact =
                 (if fld = ''margin'' then ''Economic impact: margin changed (cost of debt).''
                  else if fld = ''facility_amount'' then ''Economic impact: facility size changed.''
                  else if fld = ''maturity_date'' then ''Term/risk impact: maturity changed.''
                  else if fld = ''borrower'' then ''Counterparty details changed.''
                  else if fld = ''purpose'' then ''Use of proceeds changed.''
                  else ''Change detected'')
           in compare_loop rest v1 v2
                (changes @ [\<lparr>field = fld, from_value = py_str old_val,
                             to_value = py_str new_val, impact = impact\<rparr>]))"

definition compare_terms :: "dict \<Rightarrow> dict \<Rightarrow> FieldChange list" where
  "compare_terms v1 v2 = compare_loop (dict_keys v1) v1 v2 []"

section \<open>String primitives of Python\<close>

text \<open>
  \<open>str.lower\<close>, one character at a time: the capital letters \<open>A\<close> to \<open>Z\<close> and those
  at 0xC0 to 0xDE (the sign at 0xD7 is none) go to the small letter 32 places further.
\<close>

definition lower_char :: "char \<Rightarrow> char" where
  "lower_char c =
     (let n = of_char c :: int
      in if (65 \<le> n \<and> n \<le> 90) \<or> (192 \<le> n \<and> n \<le> 214) \<or> (216 \<le> n \<and> n \<le> 222)
         then char_of (n + 32) else c)"

definition str_lower :: "string \<Rightarrow> string" where
  "str_lower s = map lower_char s"

text \<open>
  White space as \<open>str.strip\<close>, \<open>str.isspace\<close> and the class \<open>\s\<close> of \<open>re\<close> see
  it: tab, line feed, vertical tab, form feed, carriage return (9 to 13), the four
  separators and the space (28 to 32), the next-line control (0x85) and the no-break
  space (0xA0).
\<close>

definition is_space :: "char \<Rightarrow> bool" where
  "is_space c \<longleftrightarrow>
     (let n = of_char c :: int
      in (9 \<le> n \<and> n \<le> 13) \<or> (28 \<le> n \<and> n \<le> 32) \<or> n = 133 \<or> n = 160)"

definition strip :: "string \<Rightarrow> string" where
  "strip s = rev (dropWhile is_space (rev (dropWhile is_space s)))"

text \<open>\<open>sub in s\<close> on strings: \<open>sub\<close> starts at some position of \<open>s\<close>.\<close>

fun starts_with :: "string \<Rightarrow> string \<Rightarrow> bool" where
  "starts_with s [] = True"
| "starts_with [] (c # cs) = False"
| "starts_with (x # xs) (c # cs) = (x = c \<and> starts_with xs cs)"

fun str_contains :: "string \<Rightarrow> string \<Rightarrow> bool" where
  "str_contains [] sub = (sub = [])"
| "str_contains (x # xs) sub = (starts_with (x # xs) sub \<or> str_contains xs sub)"

section \<open>The regular expressions of the program\<close>

text \<open>
  Each of the five patterns is a sequence of one-character classes, each with a greedy
  quantifier, and ends in its one capturing group. \<open>Rep cls lo hi\<close> is the class
  \<open>cls\<close> repeated at least \<open>lo\<close> and at most \<open>hi\<close> times (\<open>None\<close>: no bound).
\<close>

datatype atom = Rep (cls: "char \<Rightarrow> bool") (lo: nat) (hi: "nat option")

datatype pattern = Pattern (before: "atom list") (group1: "atom list")

text \<open>
  The repetition counts a backtracking matcher tries for a greedy quantifier at the
  head of \<open>s\<close>: as many characters as the class and the upper bound allow, then one
  fewer each time, down to the lower bound.
\<close>

definition greedy_counts :: "atom \<Rightarrow> string \<Rightarrow> nat list" where
  "greedy_counts a s =
     (let avail = length (takeWhile (cls a) s);
          top = (case hi a of None \<Rightarrow> avail | Some h \<Rightarrow> min h avail)
      in rev [lo a ..< Suc top])"

text \<open>
  All the ways a sequence of atoms matches at the head of \<open>s\<close>, each given by the input
  left over, in the order in which backtracking finds them.
\<close>

fun match_seq :: "atom list \<Rightarrow> string \<Rightarrow> string list" where
  "match_seq [] s = [s]"
| "match_seq (a # as) s = concat (map (\<lambda>k. match_seq as (drop k s)) (greedy_counts a s))"

text \<open>
  The match that starts at the head of \<open>s\<close>, if there is one: the first in backtracking
  order. Its value is the text of group 1.
\<close>

definition match_at :: "pattern \<Rightarrow> string \<Rightarrow> string option" where
  "match_at p s =
     (case concat (map (\<lambda>r1. map (\<lambda>r2. take (length r1 - length r2) r1)
                                   (match_seq (group1 p) r1))
                       (match_seq (before p) s)) of
        [] \<Rightarrow> None
      | g # _ \<Rightarrow> Some g)"

text \<open>\<open>re.search\<close>: the start positions are tried from left to right, the end of the text included.\<close>

fun re_search :: "pattern \<Rightarrow> string \<Rightarrow> string option" where
  "re_search p [] = match_at p []"
| "re_search p (c # cs) =
     (case match_at p (c # cs) of Some g \<Rightarrow> Some g | None \<Rightarrow> re_search p cs)"

text \<open>
  The character classes, under \<open>re.IGNORECASE\<close>: \<open>[0-9]\<close>; \<open>[A-Z]\<close>, which
  takes a character whose small form is in \<open>a\<close> to \<open>z\<close>; and \<open>\w\<close>, the letters and
  digits of Unicode (below 256: those of ASCII, the two ordinal indicators, the micro
  sign, the superscript digits, the three fractions, and the letters from 0xC0 on but
  for the two signs at 0xD7 and 0xF7) and the underscore.
\<close>

definition is_digit :: "char \<Rightarrow> bool" where
  "is_digit c \<longleftrightarrow> (let n = of_char c :: int in 48 \<le> n \<and> n \<le> 57)"

definition is_alpha :: "char \<Rightarrow> bool" where
  "is_alpha c \<longleftrightarrow> (let n = of_char (lower_char c) :: int in 97 \<le> n \<and> n \<le> 122)"

definition is_word :: "char \<Rightarrow> bool" where
  "is_word c \<longleftrightarrow>
     (let n = of_char c :: int
      in (48 \<le> n \<and> n \<le> 57) \<or> (65 \<le> n \<and> n \<le> 90) \<or> n = 95 \<or> (97 \<le> n \<and> n \<le> 122)
         \<or> n = 170 \<or> n = 178 \<or> n = 179 \<or> n = 181 \<or> n = 185 \<or> n = 186
         \<or> (188 \<le> n \<and> n \<le> 190) \<or> (192 \<le> n \<and> n \<le> 214) \<or> (216 \<le> n \<and> n \<le> 246)
         \<or> (248 \<le> n \<and> n \<le> 255))"

definition lit :: "char \<Rightarrow> atom" where
  "lit c = Rep (\<lambda>x. lower_char x = lower_char c) 1 (Some 1)"

definition lits :: "string \<Rightarrow> atom list" where
  "lits s = map lit s"

definition spaces0 :: atom where \<comment> \<open>\<open>\s*\<close>\<close>
  "spaces0 = Rep is_space 0 None"

definition spaces1 :: atom where \<comment> \<open>\<open>\s+\<close>\<close>
  "spaces1 = Rep is_space 1 None"

definition rest_of_line :: atom where \<comment> \<open>\<open>.+\<close>, the dot matching all but the line feed\<close>
  "rest_of_line = Rep (\<lambda>c. c \<noteq> CHR 0x0A) 1 None"

text \<open>\<^verbatim>\<open>Facility Amount:\s*([A-Z]{3}\s[0-9,\,\.]+)\<close>\<close>

definition facility_amount_pattern :: pattern where
  "facility_amount_pattern =
     Pattern (lits ''Facility Amount:'' @ [spaces0])
       [Rep is_alpha 3 (Some 3),
        Rep is_space 1 (Some 1),
        Rep (\<lambda>c. is_digit c \<or> c = CHR '','' \<or> c = CHR ''.'') 1 None]"

text \<open>\<^verbatim>\<open>Interest Margin:\s*([0-9\.]+\s*%\s*per annum)\<close>\<close>

definition margin_pattern :: pattern where
  "margin_pattern =
     Pattern (lits ''Interest Margin:'' @ [spaces0])
       ([Rep (\<lambda>c. is_digit c \<or> c = CHR ''.'') 1 None, spaces0, lit CHR ''%'', spaces0]
        @ lits ''per annum'')"

text \<open>\<^verbatim>\<open>Maturity Date:\s*([0-9]{1,2}\s+\w+\s+[0-9]{4})\<close>\<close>

definition maturity_pattern :: pattern where
  "maturity_pattern =
     Pattern (lits ''Maturity Date:'' @ [spaces0])
       [Rep is_digit 1 (Some 2), spaces1, Rep is_word 1 None, spaces1,
        Rep is_digit 4 (Some 4)]"

text \<open>\<^verbatim>\<open>Borrower:\s*(.+)\<close>\<close>

definition borrower_pattern :: pattern where
  "borrower_pattern = Pattern (lits ''Borrower:'' @ [spaces0]) [rest_of_line]"

text \<open>\<^verbatim>\<open>Purpose:\s*(.+)\<close>\<close>

definition purpose_pattern :: pattern where
  "purpose_pattern = Pattern (lits ''Purpose:'' @ [spaces0]) [rest_of_line]"

section \<open>find_first, contains_any, extract_key_terms\<close>

text \<open>\<open>match.group(1).strip() if match else None\<close>\<close>

definition find_first :: "pattern \<Rightarrow> string \<Rightarrow> string option" where
  "find_first pat text =
     (case re_search pat text of None \<Rightarrow> None | Some g \<Rightarrow> Some (strip g))"

definition contains_any :: "string \<Rightarrow> string list \<Rightarrow> bool" where
  "contains_any text keywords =
     (let lower = str_lower text
      in list_ex (\<lambda>k. str_contains lower (str_lower k)) keywords)"

text \<open>
  \<open>x or d\<close> for \<open>x\<close> a string or \<open>None\<close>: \<open>None\<close> and the empty string are the two
  false values.
\<close>

definition py_or :: "string option \<Rightarrow> string \<Rightarrow> string" where
  "py_or x d = (case x of None \<Rightarrow> d | Some s \<Rightarrow> if s = [] then d else s)"

definition extract_key_terms :: "string \<Rightarrow> dict" where
  "extract_key_terms text =
     (let facility_amount = find_first facility_amount_pattern text;
          margin = find_first margin_pattern text;
          maturity = find_first maturity_pattern text;
          borrower = find_first borrower_pattern text;
          purpose = find_first purpose_pattern text
      in [(''facility_amount'', PStr (py_or facility_amount ''Not detected'')),
          (''margin'', PStr (py_or margin ''Not detected'')),
          (''maturity_date'', PStr (py_or maturity ''Not detected'')),
          (''borrower'', PStr (py_or borrower ''Not detected'')),
          (''purpose'', PStr (py_or purpose ''Not detected''))])"

section \<open>run_esg_checks\<close>

definition run_esg_checks :: "string \<Rightarrow> ESGCheckResult list" where
  "run_esg_checks text =
     (let checks = [];
          checks = checks @
            [\<lparr>rule_name = ''Use of proceeds clearly defined'',
              passed = contains_any text
                [''use of proceeds'', ''proceeds of the facility'', ''shall be applied towards''],
              comment = ''Green loans should clearly define how proceeds will be used.''\<rparr>];
          checks = checks @
            [\<lparr>rule_name = ''Environmental / sustainability objectives described'',
              passed = contains_any text
                [''green project'', ''sustainability objective'', ''environmental objective'',
                 ''renewable energy'', ''energy efficiency'', ''climate''],
              comment = ''Looks for language around green or sustainability objectives.''\<rparr>];
          checks = checks @
            [\<lparr>rule_name = ''KPIs or performance targets included'',
              passed = contains_any text
                [''key performance indicator'', ''kpi'', ''sustainability performance target'',
                 ''performance target''],
              comment = ''Searches for sustainability-linked KPIs or performance targets.''\<rparr>];
          checks = checks @
            [\<lparr>rule_name = ''Ongoing reporting obligations present'',
              passed = contains_any text
                [''reporting'', ''annual report'', ''sustainability report'', ''periodic report''],
              comment = ''Checks if the borrower is required to report on performance.''\<rparr>];
          checks = checks @
            [\<lparr>rule_name = ''External review / verification mentioned'',
              passed = contains_any text
                [''second party opinion'', ''external review'', ''external verifier'',
                 ''assurance provider''],
              comment = ''Looks for external ESG review or verification requirements.''\<rparr>]
      in checks)"

section \<open>analyze_docs\<close>

record AnalyzeResponse =
  key_terms_v1 :: dict
  key_terms_v2 :: dict
  changes :: "FieldChange list"
  esg_checks :: "ESGCheckResult list"

text \<open>
  The handler, with the decoding of an upload into text (\<open>extract_text_from_pdf\<close>, a
  call into the PDF library) as a parameter and the two uploads as they were read.
\<close>

definition analyze_docs :: "('b \<Rightarrow> string) \<Rightarrow> 'b \<Rightarrow> 'b \<Rightarrow> AnalyzeResponse" where
  "analyze_docs extract_text_from_pdf v1_bytes v2_bytes =
     (let text_v1 = extract_text_from_pdf v1_bytes;
          text_v2 = extract_text_from_pdf v2_bytes;
          key_terms_v1 = extract_key_terms text_v1;
          key_terms_v2 = extract_key_terms text_v2;
          changes = compare_terms key_terms_v1 key_terms_v2;
          esg_checks = run_esg_checks text_v2
      in \<lparr>key_terms_v1 = key_terms_v1, key_terms_v2 = key_terms_v2,
           changes = changes, esg_checks = esg_checks\<rparr>)"

section \<open>Notions of the specification\<close>

text \<open>
  A phrase occurs in a text as a case-insensitive substring: some stretch of the text
  equals the phrase letter by letter once the case of both is ignored.
\<close>

definition ci_occurs :: "string \<Rightarrow> string \<Rightarrow> bool" where
  "ci_occurs phrase text \<longleftrightarrow>
     (\<exists>u w v. text = u @ w @ v \<and> map lower_char w = map lower_char phrase)"

text \<open>
  The per-field impact table as the specification lists it (section 4.2): five named
  fields, and the generic message for every other name.
\<close>

definition spec_impact_table :: "(string \<times> string) list" where
  "spec_impact_table =
     [(''margin'', ''Economic impact: margin changed (cost of debt).''),
      (''facility_amount'', ''Economic impact: facility size changed.''),
      (''maturity_date'', ''Term/risk impact: maturity changed.''),
      (''borrower'', ''Counterparty details changed.''),
      (''purpose'', ''Use of proceeds changed.'')]"

definition spec_impact :: "string \<Rightarrow> string" where
  "spec_impact f = (case map_of spec_impact_table f of None \<Rightarrow> ''Change detected'' | Some m \<Rightarrow> m)"

section \<open>Properties of compare_terms\<close>

text \<open>The change built for a field whose two values differ.\<close>

definition change_of :: "dict \<Rightarrow> dict \<Rightarrow> string \<Rightarrow> FieldChange" where
  "change_of v1 v2 f =
     \<lparr>field = f, from_value = py_str (dict_get v1 f), to_value = py_str (dict_get v2 f),
      impact = spec_impact f\<rparr>"

text \<open>
  A character class that does not tell a letter from its small form: every class of the
  five patterns is one, which is what the flag \<open>re.IGNORECASE\<close> makes of them.
\<close>

definition ci_class :: "(char \<Rightarrow> bool) \<Rightarrow> bool" where
  "ci_class P \<longleftrightarrow> (\<forall>x. P (lower_char x) = P x)"

lemma compare_loop_eq:
  "compare_loop ks v1 v2 acc =
     acc @ map (change_of v1 v2) (filter (\<lambda>f. dict_get v1 f \<noteq> dict_get v2 f) ks)"
proof (induction ks arbitrary: acc)
  case Nil
  show ?case by simp
next
  case (Cons k ks)
  show ?case
  proof (cases "dict_get v1 k = dict_get v2 k")
    case True
    then show ?thesis by (simp add: Cons.IH)
  next
    case False
    have "spec_impact k =
        (if k = ''margin'' then ''Economic impact: margin changed (cost of debt).''
         else if k = ''facility_amount'' then ''Economic impact: facility size changed.''
         else if k = ''maturity_date'' then ''Term/risk impact: maturity changed.''
         else if k = ''borrower'' then ''Counterparty details changed.''
         else if k = ''purpose'' then ''Use of proceeds changed.''
         else ''Change detected'')"
      by (simp add: spec_impact_def spec_impact_table_def)
    with False show ?thesis
      by (simp add: Cons.IH change_of_def Let_def)
  qed
qed

lemma compare_terms_eq:
  "compare_terms v1 v2 =
     map (change_of v1 v2) (filter (\<lambda>f. dict_get v1 f \<noteq> dict_get v2 f) (dict_keys v1))"
  by (simp add: compare_terms_def compare_loop_eq)

lemma field_change_of: "field (change_of v1 v2 f) = f"
  by (simp add: change_of_def)

lemma map_field_compare_terms:
  "map field (compare_terms v1 v2) =
     filter (\<lambda>f. dict_get v1 f \<noteq> dict_get v2 f) (dict_keys v1)"
  by (simp add: compare_terms_eq o_def field_change_of)

lemma length_filter_distinct:
  "distinct xs \<Longrightarrow> length (filter (\<lambda>x. x = a) xs) = (if a \<in> set xs then 1 else 0)"
  by (induction xs) auto

lemma count_field_compare_terms:
  assumes "distinct (dict_keys v1)"
  shows "length (filter (\<lambda>c. field c = f) (compare_terms v1 v2)) =
           (if f \<in> set (dict_keys v1) \<and> dict_get v1 f \<noteq> dict_get v2 f then 1 else 0)"
proof -
  let ?ks = "filter (\<lambda>f. dict_get v1 f \<noteq> dict_get v2 f) (dict_keys v1)"
  have "length (filter (\<lambda>c. field c = f) (compare_terms v1 v2)) =
        length (filter (\<lambda>x. x = f) (map field (compare_terms v1 v2)))"
    by (simp add: filter_map o_def)
  also have "\<dots> = length (filter (\<lambda>x. x = f) ?ks)"
    by (simp only: map_field_compare_terms)
  also have "\<dots> = (if f \<in> set ?ks then 1 else 0)"
    using assms by (intro length_filter_distinct) simp
  finally show ?thesis by simp
qed

lemma compare_terms_members:
  "c \<in> set (compare_terms v1 v2) \<Longrightarrow>
     field c \<in> set (dict_keys v1) \<and> dict_get v1 (field c) \<noteq> dict_get v2 (field c) \<and>
     c = change_of v1 v2 (field c)"
  by (auto simp: compare_terms_eq field_change_of)

lemma dict_get_missing: "f \<notin> set (dict_keys d) \<Longrightarrow> dict_get d f = PNone"
proof -
  assume "f \<notin> set (dict_keys d)"
  then have "map_of d f = None"
    by (simp add: dict_keys_def map_of_eq_None_iff)
  then show ?thesis
    by (simp add: dict_get_def)
qed

section \<open>Claims about compare_terms\<close>

text \<open>
  C1. For a baseline \<open>B\<close> (a dictionary, so with distinct keys) and a revised \<open>R\<close>, the
  fields of the changes returned are, in the baseline's key order, exactly the keys whose
  two values differ; hence a field with different values has exactly one change and a
  field with equal values has none. Each change carries the two values (as \<open>str\<close>
  prints them, which for the strings of an ExtractedFields is the string itself) and the
  impact that the per-field table gives for the field name alone, the generic message
  for a name outside the table.
\<close>

theorem compare_terms_change_completeness:
  assumes "distinct (dict_keys B)"
  shows "map field (compare_terms B R) =
           filter (\<lambda>f. dict_get B f \<noteq> dict_get R f) (dict_keys B)
       \<and> (\<forall>f. length (filter (\<lambda>c. field c = f) (compare_terms B R)) =
                (if f \<in> set (dict_keys B) \<and> dict_get B f \<noteq> dict_get R f then 1 else 0))
       \<and> (\<forall>c \<in> set (compare_terms B R).
             from_value c = py_str (dict_get B (field c))
           \<and> to_value c = py_str (dict_get R (field c))
           \<and> impact c = spec_impact (field c))
       \<and> (\<forall>s. py_str (PStr s) = s)
       \<and> (\<forall>f. f \<notin> set (map fst spec_impact_table) \<longrightarrow> spec_impact f = ''Change detected'')"
proof (intro conjI allI ballI impI)
  show "map field (compare_terms B R) =
          filter (\<lambda>f. dict_get B f \<noteq> dict_get R f) (dict_keys B)"
    by (rule map_field_compare_terms)
next
  fix f
  show "length (filter (\<lambda>c. field c = f) (compare_terms B R)) =
          (if f \<in> set (dict_keys B) \<and> dict_get B f \<noteq> dict_get R f then 1 else 0)"
    using assms by (rule count_field_compare_terms)
next
  fix c assume c: "c \<in> set (compare_terms B R)"
  then have eq: "c = change_of B R (field c)"
    by (simp add: compare_terms_members)
  show "from_value c = py_str (dict_get B (field c))"
    by (subst eq) (simp add: change_of_def)
  show "to_value c = py_str (dict_get R (field c))"
    by (subst eq) (simp add: change_of_def)
  show "impact c = spec_impact (field c)"
    by (subst eq) (simp add: change_of_def)
next
  fix s show "py_str (PStr s) = s" by simp
next
  fix f :: string
  assume "f \<notin> set (map fst spec_impact_table)"
  then have "map_of spec_impact_table f = None"
    by (simp add: map_of_eq_None_iff)
  then show "spec_impact f = ''Change detected''"
    by (simp add: spec_impact_def)
qed

theorem compare_terms_change_completeness_witness:
  "distinct (dict_keys
      [(''facility_amount'', PStr ''EUR 150,000,000''), (''margin'', PStr ''2.50% per annum''),
       (''maturity_date'', PStr ''Not detected''), (''borrower'', PStr ''GreenTech Energy Ltd.''),
       (''purpose'', PStr ''Not detected'')])
   \<and> map field (compare_terms
      [(''facility_amount'', PStr ''EUR 150,000,000''), (''margin'', PStr ''2.50% per annum''),
       (''maturity_date'', PStr ''Not detected''), (''borrower'', PStr ''GreenTech Energy Ltd.''),
       (''purpose'', PStr ''Not detected'')]
      [(''facility_amount'', PStr ''EUR 150,000,000''), (''margin'', PStr ''3.00% per annum''),
       (''maturity_date'', PStr ''Not detected''), (''borrower'', PStr ''GreenTech Energy Ltd.''),
       (''purpose'', PStr ''General corporate purposes'')])
     = [''margin'', ''purpose'']
   \<and> ''zzz'' \<notin> set (map fst spec_impact_table) \<and> spec_impact ''zzz'' = ''Change detected''"
proof -
  let ?B = "[(''facility_amount'', PStr ''EUR 150,000,000''), (''margin'', PStr ''2.50% per annum''),
       (''maturity_date'', PStr ''Not detected''), (''borrower'', PStr ''GreenTech Energy Ltd.''),
       (''purpose'', PStr ''Not detected'')]"
  let ?R = "[(''facility_amount'', PStr ''EUR 150,000,000''), (''margin'', PStr ''3.00% per annum''),
       (''maturity_date'', PStr ''Not detected''), (''borrower'', PStr ''GreenTech Energy Ltd.''),
       (''purpose'', PStr ''General corporate purposes'')]"
  have h: "distinct (dict_keys ?B)"
    by (simp add: dict_keys_def)
  have z: "''zzz'' \<notin> set (map fst spec_impact_table)"
    by (simp add: spec_impact_table_def)
  note t = compare_terms_change_completeness [OF h, of ?R]
  have "map field (compare_terms ?B ?R) = [''margin'', ''purpose'']"
    using t by (simp add: dict_keys_def dict_get_def)
  moreover have "spec_impact ''zzz'' = ''Change detected''"
    using t z by blast
  ultimately show ?thesis using h z by blast
qed

text \<open>
  C5. Comparing a dictionary with itself gives no change at all; and a field whose value
  is the sentinel \<open>Not detected\<close> on both sides has no change in the output.
\<close>

theorem compare_terms_no_change:
  "compare_terms F F = []
   \<and> (dict_get B f = PStr ''Not detected'' \<and> dict_get R f = PStr ''Not detected''
        \<longrightarrow> f \<notin> field ` set (compare_terms B R))"
proof
  show "compare_terms F F = []"
    by (simp add: compare_terms_eq)
  show "dict_get B f = PStr ''Not detected'' \<and> dict_get R f = PStr ''Not detected''
        \<longrightarrow> f \<notin> field ` set (compare_terms B R)"
    by (auto dest: compare_terms_members)
qed

theorem compare_terms_no_change_witness:
  "dict_get [(''margin'', PStr ''2.50% per annum''), (''purpose'', PStr ''Not detected'')] ''purpose''
     = PStr ''Not detected''
   \<and> dict_get [(''margin'', PStr ''3.00% per annum''), (''purpose'', PStr ''Not detected'')] ''purpose''
     = PStr ''Not detected''
   \<and> ''purpose'' \<notin> field ` set (compare_terms
        [(''margin'', PStr ''2.50% per annum''), (''purpose'', PStr ''Not detected'')]
        [(''margin'', PStr ''3.00% per annum''), (''purpose'', PStr ''Not detected'')])
   \<and> compare_terms [(''margin'', PStr ''2.50% per annum''), (''purpose'', PStr ''Not detected'')]
        [(''margin'', PStr ''2.50% per annum''), (''purpose'', PStr ''Not detected'')] = []"
  using compare_terms_no_change
    [of "[(''margin'', PStr ''2.50% per annum''), (''purpose'', PStr ''Not detected'')]"
        "[(''margin'', PStr ''2.50% per annum''), (''purpose'', PStr ''Not detected'')]"
        "''purpose''"
        "[(''margin'', PStr ''3.00% per annum''), (''purpose'', PStr ''Not detected'')]"]
  by (simp add: dict_get_def)

text \<open>
  C10. A key of the baseline that the revised dictionary lacks, with a string as its
  baseline value, gets a change whose \<open>to_value\<close> is the text \<open>None\<close> (and so not the
  sentinel); and every change is for a key of the baseline, so a key that only the revised
  dictionary has never appears.
\<close>

theorem compare_terms_missing_key:
  "(f \<in> set (dict_keys B) \<and> f \<notin> set (dict_keys R) \<and> dict_get B f = PStr s
      \<longrightarrow> \<lparr>field = f, from_value = s, to_value = ''None'', impact = spec_impact f\<rparr>
            \<in> set (compare_terms B R)
          \<and> (\<forall>c \<in> set (compare_terms B R). field c = f
               \<longrightarrow> to_value c = ''None'' \<and> to_value c \<noteq> ''Not detected''))
   \<and> (\<forall>c \<in> set (compare_terms B R). field c \<in> set (dict_keys B))
   \<and> (g \<in> set (dict_keys R) \<and> g \<notin> set (dict_keys B) \<longrightarrow> g \<notin> field ` set (compare_terms B R))"
proof (intro conjI impI ballI)
  assume a: "f \<in> set (dict_keys B) \<and> f \<notin> set (dict_keys R) \<and> dict_get B f = PStr s"
  then have r: "dict_get R f = PNone"
    by (simp add: dict_get_missing)
  with a have "change_of B R f \<in> set (compare_terms B R)"
    by (simp add: compare_terms_eq)
  with a r show "\<lparr>field = f, from_value = s, to_value = ''None'', impact = spec_impact f\<rparr>
      \<in> set (compare_terms B R)"
    by (simp add: change_of_def)
  fix c assume "c \<in> set (compare_terms B R)" and "field c = f"
  then have "c = change_of B R f"
    using compare_terms_members by blast
  with r show "to_value c = ''None''" and "to_value c \<noteq> ''Not detected''"
    by (simp_all add: change_of_def)
next
  fix c assume "c \<in> set (compare_terms B R)"
  then show "field c \<in> set (dict_keys B)"
    by (simp add: compare_terms_members)
next
  assume "g \<in> set (dict_keys R) \<and> g \<notin> set (dict_keys B)"
  then show "g \<notin> field ` set (compare_terms B R)"
    by (auto dest: compare_terms_members)
qed

theorem compare_terms_missing_key_witness:
  "''margin'' \<in> set (dict_keys [(''margin'', PStr ''2.50% per annum'')])
   \<and> ''margin'' \<notin> set (dict_keys [(''esg_rating'', PStr ''A'')])
   \<and> dict_get [(''margin'', PStr ''2.50% per annum'')] ''margin'' = PStr ''2.50% per annum''
   \<and> compare_terms [(''margin'', PStr ''2.50% per annum'')] [(''esg_rating'', PStr ''A'')]
       = [\<lparr>field = ''margin'', from_value = ''2.50% per annum'', to_value = ''None'',
           impact = ''Economic impact: margin changed (cost of debt).''\<rparr>]
   \<and> ''esg_rating'' \<in> set (dict_keys [(''esg_rating'', PStr ''A'')])
   \<and> ''esg_rating'' \<notin> field ` set (compare_terms [(''margin'', PStr ''2.50% per annum'')]
                                                    [(''esg_rating'', PStr ''A'')])"
proof -
  let ?B = "[(''margin'', PStr ''2.50% per annum'')]"
  let ?R = "[(''esg_rating'', PStr ''A'')]"
  have h: "''margin'' \<in> set (dict_keys ?B) \<and> ''margin'' \<notin> set (dict_keys ?R)
           \<and> dict_get ?B ''margin'' = PStr ''2.50% per annum''"
    by (simp add: dict_keys_def dict_get_def)
  have g: "''esg_rating'' \<in> set (dict_keys ?R) \<and> ''esg_rating'' \<notin> set (dict_keys ?B)"
    by (simp add: dict_keys_def)
  note t = compare_terms_missing_key [of "''margin''" ?B ?R "''2.50% per annum''" "''esg_rating''"]
  have 1: "''esg_rating'' \<notin> field ` set (compare_terms ?B ?R)"
    using t g by blast
  have 2: "compare_terms ?B ?R
       = [\<lparr>field = ''margin'', from_value = ''2.50% per annum'', to_value = ''None'',
           impact = ''Economic impact: margin changed (cost of debt).''\<rparr>]"
    by (simp add: compare_terms_def dict_keys_def dict_get_def)
  show ?thesis using h g 1 2 by blast
qed

section \<open>Substring search and the keyword test\<close>

lemma starts_with_iff: "starts_with s sub \<longleftrightarrow> (\<exists>v. s = sub @ v)"
  by (induction s sub rule: starts_with.induct) auto

lemma str_contains_iff: "str_contains s sub \<longleftrightarrow> (\<exists>u v. s = u @ sub @ v)"
proof (induction s)
  case Nil
  show ?case by auto
next
  case (Cons x xs)
  show ?case
  proof
    assume "str_contains (x # xs) sub"
    then consider "starts_with (x # xs) sub" | "str_contains xs sub" by auto
    then show "\<exists>u v. x # xs = u @ sub @ v"
    proof cases
      case 1
      then obtain v where "x # xs = sub @ v" by (auto simp: starts_with_iff)
      then have "x # xs = [] @ sub @ v" by simp
      then show ?thesis by blast
    next
      case 2
      then obtain u v where "xs = u @ sub @ v" using Cons.IH by blast
      then have "x # xs = (x # u) @ sub @ v" by simp
      then show ?thesis by blast
    qed
  next
    assume "\<exists>u v. x # xs = u @ sub @ v"
    then obtain u v where e: "x # xs = u @ sub @ v" by blast
    show "str_contains (x # xs) sub"
    proof (cases u)
      case Nil
      with e have "starts_with (x # xs) sub" by (auto simp: starts_with_iff)
      then show ?thesis by simp
    next
      case (Cons y u')
      with e have "xs = u' @ sub @ v" by simp
      then have "str_contains xs sub" using Cons.IH by blast
      then show ?thesis by simp
    qed
  qed
qed

lemma str_contains_lower: "str_contains (str_lower t) (str_lower k) \<longleftrightarrow> ci_occurs k t"
proof
  assume "str_contains (str_lower t) (str_lower k)"
  then obtain u v where "map lower_char t = u @ map lower_char k @ v"
    by (auto simp: str_contains_iff str_lower_def)
  then have "\<exists>u' r. t = u' @ r \<and> map lower_char r = map lower_char k @ v"
    by (metis map_eq_append_conv)
  then obtain u' r where t: "t = u' @ r" and r: "map lower_char r = map lower_char k @ v"
    by blast
  from r have "\<exists>w v'. r = w @ v' \<and> map lower_char w = map lower_char k"
    by (metis map_eq_append_conv)
  then obtain w v' where "r = w @ v'" and "map lower_char w = map lower_char k"
    by blast
  with t show "ci_occurs k t" by (auto simp: ci_occurs_def)
next
  assume "ci_occurs k t"
  then obtain u w v where "t = u @ w @ v" and "map lower_char w = map lower_char k"
    by (auto simp: ci_occurs_def)
  then have "map lower_char t = map lower_char u @ map lower_char k @ map lower_char v"
    by simp
  then show "str_contains (str_lower t) (str_lower k)"
    unfolding str_contains_iff str_lower_def by blast
qed

lemma contains_any_iff: "contains_any t ks \<longleftrightarrow> (\<exists>k \<in> set ks. ci_occurs k t)"
  by (simp add: contains_any_def list_ex_iff str_contains_lower)

section \<open>Claims about run_esg_checks\<close>

text \<open>
  C2. For every text the result has exactly five entries; their names and their comments
  are the five fixed strings of the battery, in its order; and two texts with the same
  five verdicts get the same result, so nothing but \<open>passed\<close> depends on the text.
\<close>

theorem run_esg_checks_fixed_shape:
  "length (run_esg_checks T) = 5
   \<and> map rule_name (run_esg_checks T) =
      [''Use of proceeds clearly defined'',
       ''Environmental / sustainability objectives described'',
       ''KPIs or performance targets included'',
       ''Ongoing reporting obligations present'',
       ''External review / verification mentioned'']
   \<and> map comment (run_esg_checks T) =
      [''Green loans should clearly define how proceeds will be used.'',
       ''Looks for language around green or sustainability objectives.'',
       ''Searches for sustainability-linked KPIs or performance targets.'',
       ''Checks if the borrower is required to report on performance.'',
       ''Looks for external ESG review or verification requirements.'']
   \<and> (map passed (run_esg_checks T) = map passed (run_esg_checks T')
        \<longrightarrow> run_esg_checks T = run_esg_checks T')"
  by (simp add: run_esg_checks_def)

theorem run_esg_checks_fixed_shape_witness:
  "map passed (run_esg_checks ''kpi'') = map passed (run_esg_checks ''All KPIs'')
   \<and> run_esg_checks ''kpi'' = run_esg_checks ''All KPIs''
   \<and> length (run_esg_checks ''kpi'') = 5"
proof -
  have h: "map passed (run_esg_checks ''kpi'') = map passed (run_esg_checks ''All KPIs'')"
    by code_simp
  show ?thesis
    using h run_esg_checks_fixed_shape [of "''kpi''" "''All KPIs''"] by blast
qed

text \<open>
  C3. The five verdicts are, rule by rule, whether one of the rule's trigger phrases
  occurs in the text as a case-insensitive substring, at any position and with no word
  boundary asked for. So a text with \<open>kpi\<close> in it, in any case and inside any word,
  passes rule 3.
\<close>

theorem run_esg_checks_passed_iff:
  "map passed (run_esg_checks T) =
     map (\<lambda>triggers. \<exists>k \<in> set triggers. ci_occurs k T)
       [[''use of proceeds'', ''proceeds of the facility'', ''shall be applied towards''],
        [''green project'', ''sustainability objective'', ''environmental objective'',
         ''renewable energy'', ''energy efficiency'', ''climate''],
        [''key performance indicator'', ''kpi'', ''sustainability performance target'',
         ''performance target''],
        [''reporting'', ''annual report'', ''sustainability report'', ''periodic report''],
        [''second party opinion'', ''external review'', ''external verifier'',
         ''assurance provider'']]
   \<and> (map lower_char w = ''kpi'' \<longrightarrow> passed (run_esg_checks (u @ w @ v) ! 2))"
proof
  show "map passed (run_esg_checks T) =
     map (\<lambda>triggers. \<exists>k \<in> set triggers. ci_occurs k T)
       [[''use of proceeds'', ''proceeds of the facility'', ''shall be applied towards''],
        [''green project'', ''sustainability objective'', ''environmental objective'',
         ''renewable energy'', ''energy efficiency'', ''climate''],
        [''key performance indicator'', ''kpi'', ''sustainability performance target'',
         ''performance target''],
        [''reporting'', ''annual report'', ''sustainability report'', ''periodic report''],
        [''second party opinion'', ''external review'', ''external verifier'',
         ''assurance provider'']]"
    unfolding run_esg_checks_def Let_def
    by (simp only: contains_any_iff list.map append.simps ESGCheckResult.simps)
  show "map lower_char w = ''kpi'' \<longrightarrow> passed (run_esg_checks (u @ w @ v) ! 2)"
  proof
    assume w: "map lower_char w = ''kpi''"
    have "map lower_char ''kpi'' = ''kpi''"
      by code_simp
    with w have "ci_occurs ''kpi'' (u @ w @ v)"
      unfolding ci_occurs_def by metis
    then have "contains_any (u @ w @ v)
        [''key performance indicator'', ''kpi'', ''sustainability performance target'',
         ''performance target'']"
      by (simp add: contains_any_iff)
    then show "passed (run_esg_checks (u @ w @ v) ! 2)"
      by (simp add: run_esg_checks_def)
  qed
qed

theorem run_esg_checks_passed_iff_witness:
  "map lower_char ''KpI'' = ''kpi''
   \<and> passed (run_esg_checks (''the s'' @ ''KpI'' @ ''s are'') ! 2)"
proof -
  have h: "map lower_char ''KpI'' = ''kpi''"
    by code_simp
  from run_esg_checks_passed_iff [of "''the sKpIs are''" "''KpI''" "''the s''" "''s are''"]
  have "map lower_char ''KpI'' = ''kpi''
        \<longrightarrow> passed (run_esg_checks (''the s'' @ ''KpI'' @ ''s are'') ! 2)"
    by (rule conjunct2)
  then have "passed (run_esg_checks (''the s'' @ ''KpI'' @ ''s are'') ! 2)"
    using h by (rule mp)
  with h show ?thesis by (rule conjI)
qed

section \<open>The search for a pattern\<close>

lemma greedy_counts_lit:
  "greedy_counts (lit c) s =
     (case s of [] \<Rightarrow> [] | x # _ \<Rightarrow> if lower_char x = lower_char c then [1] else [])"
  by (cases s) (simp_all add: greedy_counts_def lit_def)

lemma match_seq_lit:
  "match_seq (lit c # as) s =
     (case s of [] \<Rightarrow> [] | x # xs \<Rightarrow> if lower_char x = lower_char c then match_seq as xs else [])"
  by (cases s) (simp_all add: greedy_counts_lit)

lemma match_seq_lits:
  "match_seq (lits l @ as) s \<noteq> [] \<Longrightarrow> \<exists>w r. s = w @ r \<and> map lower_char w = map lower_char l"
proof (induction l arbitrary: s)
  case Nil
  show ?case by simp
next
  case (Cons c l)
  from Cons.prems have "match_seq (lit c # (lits l @ as)) s \<noteq> []"
    by (simp add: lits_def)
  then obtain x xs where s: "s = x # xs" and x: "lower_char x = lower_char c"
    and m: "match_seq (lits l @ as) xs \<noteq> []"
    unfolding match_seq_lit by (auto split: list.splits if_splits)
  from Cons.IH [OF m] obtain w r where "xs = w @ r" and "map lower_char w = map lower_char l"
    by blast
  with s x have "s = (x # w) @ r \<and> map lower_char (x # w) = map lower_char (c # l)"
    by simp
  then show ?case by blast
qed

lemma match_at_Some_before: "match_at p s = Some g \<Longrightarrow> match_seq (before p) s \<noteq> []"
  by (auto simp: match_at_def)

lemma re_search_Some_iff:
  "re_search p T = Some g \<longleftrightarrow>
     (\<exists>i \<le> length T. match_at p (drop i T) = Some g \<and> (\<forall>j < i. match_at p (drop j T) = None))"
proof (induction T)
  case Nil
  show ?case by auto
next
  case (Cons c cs)
  show ?case
  proof (cases "match_at p (c # cs)")
    case (Some g')
    show ?thesis
    proof
      assume "re_search p (c # cs) = Some g"
      with Some have "match_at p (drop 0 (c # cs)) = Some g" by simp
      then show "\<exists>i \<le> length (c # cs). match_at p (drop i (c # cs)) = Some g
                  \<and> (\<forall>j < i. match_at p (drop j (c # cs)) = None)"
        by blast
    next
      assume "\<exists>i \<le> length (c # cs). match_at p (drop i (c # cs)) = Some g
                  \<and> (\<forall>j < i. match_at p (drop j (c # cs)) = None)"
      then obtain i where i: "match_at p (drop i (c # cs)) = Some g"
        and least: "\<forall>j < i. match_at p (drop j (c # cs)) = None" by blast
      have "i = 0"
      proof (rule ccontr)
        assume "i \<noteq> 0"
        then have "match_at p (drop 0 (c # cs)) = None" using least by blast
        with Some show False by simp
      qed
      with i Some show "re_search p (c # cs) = Some g" by simp
    qed
  next
    case None
    then have r: "re_search p (c # cs) = re_search p cs" by simp
    show ?thesis
    proof
      assume "re_search p (c # cs) = Some g"
      with r Cons.IH obtain i where "i \<le> length cs" "match_at p (drop i cs) = Some g"
        "\<forall>j < i. match_at p (drop j cs) = None" by auto
      with None have "Suc i \<le> length (c # cs) \<and> match_at p (drop (Suc i) (c # cs)) = Some g
          \<and> (\<forall>j < Suc i. match_at p (drop j (c # cs)) = None)"
        by (auto simp: less_Suc_eq_0_disj)
      then show "\<exists>i \<le> length (c # cs). match_at p (drop i (c # cs)) = Some g
                  \<and> (\<forall>j < i. match_at p (drop j (c # cs)) = None)"
        by blast
    next
      assume "\<exists>i \<le> length (c # cs). match_at p (drop i (c # cs)) = Some g
                  \<and> (\<forall>j < i. match_at p (drop j (c # cs)) = None)"
      then obtain i where i: "i \<le> length (c # cs)" "match_at p (drop i (c # cs)) = Some g"
        and least: "\<forall>j < i. match_at p (drop j (c # cs)) = None" by blast
      from i None obtain i' where i': "i = Suc i'" by (cases i) auto
      with i have "i' \<le> length cs" "match_at p (drop i' cs) = Some g" by auto
      moreover have "\<forall>j < i'. match_at p (drop j cs) = None"
      proof (intro allI impI)
        fix j assume "j < i'"
        then have "Suc j < i" using i' by simp
        with least have "match_at p (drop (Suc j) (c # cs)) = None" by blast
        then show "match_at p (drop j cs) = None" by simp
      qed
      ultimately have "re_search p cs = Some g" using Cons.IH by blast
      with r show "re_search p (c # cs) = Some g" by simp
    qed
  qed
qed

lemma re_search_label:
  assumes "re_search (Pattern (lits l @ as) grp) T = Some g"
  shows "ci_occurs l T"
proof -
  from assms obtain i where "match_at (Pattern (lits l @ as) grp) (drop i T) = Some g"
    unfolding re_search_Some_iff by blast
  then have "match_seq (lits l @ as) (drop i T) \<noteq> []"
    by (auto dest: match_at_Some_before)
  then obtain w r where "drop i T = w @ r" and w: "map lower_char w = map lower_char l"
    using match_seq_lits by blast
  then have "T = take i T @ w @ r"
    by (metis append_take_drop_id)
  with w show ?thesis
    unfolding ci_occurs_def by blast
qed

lemma find_first_None:
  "\<not> ci_occurs l T \<Longrightarrow> find_first (Pattern (lits l @ as) grp) T = None"
  by (cases "re_search (Pattern (lits l @ as) grp) T")
     (auto simp: find_first_def dest: re_search_label)

section \<open>Following one match step by step\<close>

lemma match_seq_lits_eq:
  "map lower_char w = map lower_char l \<Longrightarrow> match_seq (lits l @ as) (w @ s) = match_seq as s"
proof (induction l arbitrary: w)
  case Nil
  then show ?case by (simp add: lits_def)
next
  case (Cons c l)
  then obtain x w' where w: "w = x # w'" and x: "lower_char x = lower_char c"
    and w': "map lower_char w' = map lower_char l"
    by (cases w) auto
  have "match_seq (lits (c # l) @ as) (w @ s) = match_seq (lit c # (lits l @ as)) (x # (w' @ s))"
    by (simp add: lits_def w)
  also have "\<dots> = match_seq (lits l @ as) (w' @ s)"
    by (simp only: match_seq_lit list.case x refl if_True)
  also have "\<dots> = match_seq as s"
    using w' by (rule Cons.IH)
  finally show ?case .
qed

lemma takeWhile_all: "\<forall>x \<in> set xs. P x \<Longrightarrow> takeWhile P r = [] \<Longrightarrow> takeWhile P (xs @ r) = xs"
  by (induction xs) auto

lemma match_seq_exact:
  assumes "\<forall>x \<in> set xs. P x" and "length xs = n"
  shows "match_seq (Rep P n (Some n) # as) (xs @ r) = match_seq as r"
proof -
  have "takeWhile P (xs @ r) = xs @ takeWhile P r"
    using assms(1) by (induction xs) auto
  then have "min n (length (takeWhile P (xs @ r))) = n"
    using assms(2) by simp
  then have "greedy_counts (Rep P n (Some n)) (xs @ r) = [n]"
    by (simp add: greedy_counts_def)
  then show ?thesis
    using assms(2) by simp
qed

lemma match_seq_greedy_first:
  assumes "\<forall>x \<in> set xs. P x" and "takeWhile P r = []" and "n \<le> length xs"
    and "match_seq as r = y # ys"
  shows "\<exists>zs. match_seq (Rep P n None # as) (xs @ r) = y # zs"
proof -
  have "takeWhile P (xs @ r) = xs"
    using assms(1,2) by (rule takeWhile_all)
  then have "greedy_counts (Rep P n None) (xs @ r) = length xs # rev [n ..< length xs]"
    using assms(3) by (simp add: greedy_counts_def Let_def)
  then show ?thesis
    using assms(4) by simp
qed

lemma match_at_first:
  assumes "match_seq (before p) s = r1 # rs" and "match_seq (group1 p) r1 = r2 # rs'"
  shows "match_at p s = Some (take (length r1 - length r2) r1)"
  using assms by (simp add: match_at_def)

lemma facility_match_at:
  assumes "v = [] \<or> \<not> (is_digit (hd v) \<or> hd v = CHR '','' \<or> hd v = CHR ''.'')"
  shows "match_at facility_amount_pattern (''Facility Amount: EUR 150,000,000'' @ v)
           = Some ''EUR 150,000,000''"
proof -
  let ?amt = "\<lambda>c. is_digit c \<or> c = CHR '','' \<or> c = CHR ''.''"
  let ?r1 = "''EUR 150,000,000'' @ v"
  have tw: "takeWhile ?amt v = []"
    using assms by (cases v) auto
  have E: "\<not> is_space CHR ''E''"
    by code_simp
  have blank: "\<forall>x \<in> set '' ''. is_space x"
    by code_simp
  have cur: "\<forall>x \<in> set ''EUR''. is_alpha x"
    by code_simp
  have num: "\<forall>x \<in> set ''150,000,000''. ?amt x"
    by code_simp
  have sp: "takeWhile is_space ?r1 = []"
    using E by simp
  have "match_seq (lits ''Facility Amount:'' @ [spaces0]) (''Facility Amount:'' @ '' '' @ ?r1)
        = match_seq [spaces0] ('' '' @ ?r1)"
    by (rule match_seq_lits_eq) simp
  moreover have "\<exists>zs. match_seq [spaces0] ('' '' @ ?r1) = ?r1 # zs"
    unfolding spaces0_def
    using blank sp by (rule match_seq_greedy_first) simp_all
  ultimately obtain zs where
    b: "match_seq (before facility_amount_pattern) (''Facility Amount: EUR 150,000,000'' @ v)
          = ?r1 # zs"
    by (auto simp: facility_amount_pattern_def)
  have "match_seq (group1 facility_amount_pattern) (''EUR'' @ '' '' @ ''150,000,000'' @ v)
        = match_seq [Rep is_space 1 (Some 1), Rep ?amt 1 None] ('' '' @ ''150,000,000'' @ v)"
    unfolding facility_amount_pattern_def pattern.sel
    using cur by (rule match_seq_exact) simp
  also have "\<dots> = match_seq [Rep ?amt 1 None] (''150,000,000'' @ v)"
    using blank by (rule match_seq_exact) simp
  finally have g1: "match_seq (group1 facility_amount_pattern) (''EUR'' @ '' '' @ ''150,000,000'' @ v)
        = match_seq [Rep ?amt 1 None] (''150,000,000'' @ v)" .
  have "\<exists>zs. match_seq [Rep ?amt 1 None] (''150,000,000'' @ v) = v # zs"
    using num tw by (rule match_seq_greedy_first) simp_all
  with g1 obtain zs' where
    g: "match_seq (group1 facility_amount_pattern) ?r1 = v # zs'"
    by auto
  have "match_at facility_amount_pattern (''Facility Amount: EUR 150,000,000'' @ v)
        = Some (take (length ?r1 - length v) ?r1)"
    using b g by (rule match_at_first)
  then show ?thesis by simp
qed

lemma re_search_skip:
  "\<forall>j < length u. match_at p (drop j (u @ s)) = None \<Longrightarrow> re_search p (u @ s) = re_search p s"
proof (induction u)
  case Nil
  show ?case by simp
next
  case (Cons c u)
  from Cons.prems have "match_at p (drop 0 ((c # u) @ s)) = None" by blast
  then have 1: "re_search p ((c # u) @ s) = re_search p (u @ s)" by simp
  have "\<forall>j < length u. match_at p (drop j (u @ s)) = None"
  proof (intro allI impI)
    fix j assume "j < length u"
    then have "Suc j < length (c # u)" by simp
    with Cons.prems have "match_at p (drop (Suc j) ((c # u) @ s)) = None" by blast
    then show "match_at p (drop j (u @ s)) = None" by simp
  qed
  with Cons.IH 1 show ?case by simp
qed

lemma re_search_here: "match_at p s = Some g \<Longrightarrow> re_search p s = Some g"
  by (cases s) simp_all

lemma strip_amount: "strip ''EUR 150,000,000'' = ''EUR 150,000,000''"
  by code_simp

lemma facility_extracted:
  assumes "\<forall>j < length u. match_at facility_amount_pattern
              (drop j (u @ ''Facility Amount: EUR 150,000,000'' @ v)) = None"
    and "v = [] \<or> \<not> (is_digit (hd v) \<or> hd v = CHR '','' \<or> hd v = CHR ''.'')"
  shows "dict_get (extract_key_terms (u @ ''Facility Amount: EUR 150,000,000'' @ v))
           ''facility_amount'' = PStr ''EUR 150,000,000''"
proof -
  have "re_search facility_amount_pattern (u @ ''Facility Amount: EUR 150,000,000'' @ v)
        = re_search facility_amount_pattern (''Facility Amount: EUR 150,000,000'' @ v)"
    using assms(1) by (rule re_search_skip)
  also have "\<dots> = Some ''EUR 150,000,000''"
    using assms(2) by (intro re_search_here facility_match_at)
  finally have "find_first facility_amount_pattern (u @ ''Facility Amount: EUR 150,000,000'' @ v)
        = Some ''EUR 150,000,000''"
    by (simp only: find_first_def option.case strip_amount)
  then show ?thesis
    by (simp add: extract_key_terms_def Let_def dict_get_def py_or_def)
qed

lemma ci_occurs_code [code]: "ci_occurs k t = str_contains (str_lower t) (str_lower k)"
  by (simp add: str_contains_lower)

lemma all_less_list: "(\<forall>j < n. P j) \<longleftrightarrow> list_all P [0 ..< n]"
  by (auto simp: list_all_iff)

section \<open>Letter case and white space\<close>

lemma code_point_range: "0 \<le> (of_char c :: int) \<and> (of_char c :: int) < 256"
proof -
  have "0 \<le> (of_char c :: int) mod 256"
    by (rule pos_mod_sign) simp
  moreover have "(of_char c :: int) mod 256 < 256"
    by (rule pos_mod_bound) simp
  ultimately show ?thesis
    by (simp only: of_char_mod_256)
qed

lemma of_char_lower:
  "(of_char (lower_char c) :: int) =
     (if (65 \<le> (of_char c :: int) \<and> (of_char c :: int) \<le> 90)
         \<or> (192 \<le> (of_char c :: int) \<and> (of_char c :: int) \<le> 214)
         \<or> (216 \<le> (of_char c :: int) \<and> (of_char c :: int) \<le> 222)
      then of_char c + 32 else of_char c)"
proof -
  have "((of_char c :: int) + 32) mod 256 = of_char c + 32" if "(of_char c :: int) \<le> 222"
    using that code_point_range [of c] by simp
  then show ?thesis
    by (auto simp: lower_char_def Let_def)
qed

lemma char_eq_code: "c = d \<longleftrightarrow> (of_char c :: int) = of_char d"
  by simp

lemma lower_char_idem: "lower_char (lower_char c) = lower_char c"
  unfolding char_eq_code [of "lower_char (lower_char c)"]
  by (simp add: of_char_lower)

lemma ci_class_space: "ci_class is_space"
  by (auto simp: ci_class_def is_space_def Let_def of_char_lower)

lemma ci_class_digit: "ci_class is_digit"
  by (auto simp: ci_class_def is_digit_def Let_def of_char_lower)

lemma ci_class_alpha: "ci_class is_alpha"
  by (simp add: ci_class_def is_alpha_def lower_char_idem)

lemma ci_class_word: "ci_class is_word"
  unfolding ci_class_def
proof
  fix x
  let ?n = "of_char x :: int"
  consider "65 \<le> ?n \<and> ?n \<le> 90" | "192 \<le> ?n \<and> ?n \<le> 214" | "216 \<le> ?n \<and> ?n \<le> 222"
    | "\<not> ((65 \<le> ?n \<and> ?n \<le> 90) \<or> (192 \<le> ?n \<and> ?n \<le> 214) \<or> (216 \<le> ?n \<and> ?n \<le> 222))"
    by blast
  then show "is_word (lower_char x) = is_word x"
  proof cases
    case 1
    then have "(of_char (lower_char x) :: int) = ?n + 32"
      by (simp add: of_char_lower)
    with 1 show ?thesis
      by (simp add: is_word_def Let_def)
  next
    case 2
    then have "(of_char (lower_char x) :: int) = ?n + 32"
      by (simp add: of_char_lower)
    with 2 show ?thesis
      by (simp add: is_word_def Let_def)
  next
    case 3
    then have "(of_char (lower_char x) :: int) = ?n + 32"
      by (simp add: of_char_lower)
    with 3 show ?thesis
      by (simp add: is_word_def Let_def)
  next
    case 4
    then have "(of_char (lower_char x) :: int) = ?n"
      by (simp add: of_char_lower)
    then show ?thesis
      by (simp add: is_word_def Let_def)
  qed
qed

lemma ci_class_lit: "ci_class (cls (lit c))"
  by (simp add: ci_class_def lit_def lower_char_idem)

lemma ci_class_not_char:
  assumes "\<not> (65 \<le> (of_char d :: int) \<and> (of_char d :: int) \<le> 122)"
      and "(of_char d :: int) < 192"
  shows "(lower_char x = d) = (x = d)"
  unfolding char_eq_code [of _ d] using assms
  by (auto simp: of_char_lower)

lemma ci_class_rest_of_line: "ci_class (cls rest_of_line)"
  by (simp add: ci_class_def rest_of_line_def ci_class_not_char)

lemma ci_class_amount: "ci_class (\<lambda>c. is_digit c \<or> c = CHR '','' \<or> c = CHR ''.'')"
  using ci_class_digit by (simp add: ci_class_def ci_class_not_char)

lemma ci_class_rate: "ci_class (\<lambda>c. is_digit c \<or> c = CHR ''.'')"
  using ci_class_digit by (simp add: ci_class_def ci_class_not_char)

lemma takeWhile_lower:
  "ci_class P \<Longrightarrow> length (takeWhile P (map lower_char s)) = length (takeWhile P s)"
  by (induction s) (simp_all add: ci_class_def)

lemma greedy_counts_lower:
  "ci_class (cls a) \<Longrightarrow> greedy_counts a (map lower_char s) = greedy_counts a s"
  by (simp add: greedy_counts_def takeWhile_lower)

lemma match_seq_lower:
  "\<forall>a \<in> set as. ci_class (cls a) \<Longrightarrow>
     match_seq as (map lower_char s) = map (map lower_char) (match_seq as s)"
proof (induction as arbitrary: s)
  case Nil
  show ?case by simp
next
  case (Cons a as)
  then have ih: "match_seq as (map lower_char r) = map (map lower_char) (match_seq as r)" for r
    by simp
  from Cons.prems have "greedy_counts a (map lower_char s) = greedy_counts a s"
    by (simp add: greedy_counts_lower)
  then show ?case
    by (simp add: drop_map ih map_concat o_def)
qed

lemma match_at_lower:
  assumes "\<forall>a \<in> set (before p @ group1 p). ci_class (cls a)"
  shows "match_at p (map lower_char s) = map_option (map lower_char) (match_at p s)"
proof -
  have b: "match_seq (before p) (map lower_char s) = map (map lower_char) (match_seq (before p) s)"
    using assms by (intro match_seq_lower) simp
  have g: "match_seq (group1 p) (map lower_char r) = map (map lower_char) (match_seq (group1 p) r)"
    for r
    using assms by (intro match_seq_lower) simp
  define L where
    "L = concat (map (\<lambda>r1. map (\<lambda>r2. take (length r1 - length r2) r1)
                                 (match_seq (group1 p) r1))
                    (match_seq (before p) s))"
  have key: "concat (map (\<lambda>r1. map (\<lambda>r2. take (length r1 - length r2) r1)
                                      (match_seq (group1 p) r1))
                    (match_seq (before p) (map lower_char s)))
        = map (map lower_char) L"
    by (simp add: L_def b g map_concat o_def take_map)
  have "match_at p (map lower_char s) = (case map (map lower_char) L of [] \<Rightarrow> None | x # _ \<Rightarrow> Some x)"
    by (simp only: match_at_def key)
  also have "\<dots> = map_option (map lower_char) (case L of [] \<Rightarrow> None | x # _ \<Rightarrow> Some x)"
    by (cases L) simp_all
  also have "(case L of [] \<Rightarrow> None | x # _ \<Rightarrow> Some x) = match_at p s"
    by (simp only: match_at_def L_def)
  finally show ?thesis .
qed

lemma re_search_lower:
  assumes "\<forall>a \<in> set (before p @ group1 p). ci_class (cls a)"
  shows "re_search p (map lower_char T) = map_option (map lower_char) (re_search p T)"
proof (induction T)
  case Nil
  show ?case
    using match_at_lower [OF assms, of "[]"] by simp
next
  case (Cons c cs)
  have "match_at p (lower_char c # map lower_char cs)
          = map_option (map lower_char) (match_at p (c # cs))"
    using match_at_lower [OF assms, of "c # cs"] by simp
  with Cons.IH show ?case
    by (simp split: option.split)
qed

lemma re_search_case_insensitive:
  assumes "\<forall>a \<in> set (before p @ group1 p). ci_class (cls a)"
    and "map lower_char T = map lower_char T'"
  shows "map_option (map lower_char) (re_search p T)
           = map_option (map lower_char) (re_search p T')"
  using re_search_lower [OF assms(1), of T] re_search_lower [OF assms(1), of T'] assms(2)
  by simp

lemma ci_class_lits: "\<forall>a \<in> set (lits l). ci_class (cls a)"
  by (auto simp: lits_def ci_class_lit)

lemma ci_patterns:
  "\<forall>a \<in> set (before facility_amount_pattern @ group1 facility_amount_pattern). ci_class (cls a)"
  "\<forall>a \<in> set (before margin_pattern @ group1 margin_pattern). ci_class (cls a)"
  "\<forall>a \<in> set (before maturity_pattern @ group1 maturity_pattern). ci_class (cls a)"
  "\<forall>a \<in> set (before borrower_pattern @ group1 borrower_pattern). ci_class (cls a)"
  "\<forall>a \<in> set (before purpose_pattern @ group1 purpose_pattern). ci_class (cls a)"
  using ci_class_lits ci_class_space ci_class_alpha ci_class_digit ci_class_word
    ci_class_amount ci_class_rate ci_class_rest_of_line ci_class_lit
  by (auto simp: facility_amount_pattern_def margin_pattern_def maturity_pattern_def
      borrower_pattern_def purpose_pattern_def spaces0_def spaces1_def)

lemma strip_spec:
  "\<exists>a b. g = a @ strip g @ b \<and> (\<forall>c \<in> set a. is_space c) \<and> (\<forall>c \<in> set b. is_space c)
         \<and> (strip g = [] \<or> (\<not> is_space (hd (strip g)) \<and> \<not> is_space (last (strip g))))"
proof -
  let ?a = "takeWhile is_space g" and ?r = "dropWhile is_space g"
  let ?b = "rev (takeWhile is_space (rev ?r))"
  have s: "strip g = rev (dropWhile is_space (rev ?r))"
    by (simp add: strip_def)
  have "?r = rev (takeWhile is_space (rev ?r) @ dropWhile is_space (rev ?r))"
    by (simp only: takeWhile_dropWhile_id rev_rev_ident)
  also have "\<dots> = rev (dropWhile is_space (rev ?r)) @ rev (takeWhile is_space (rev ?r))"
    by (rule rev_append)
  finally have r: "?r = strip g @ ?b"
    by (simp only: s)
  then have 1: "g = ?a @ strip g @ ?b"
    by (metis takeWhile_dropWhile_id)
  have 2: "\<forall>c \<in> set ?a. is_space c"
    by (auto dest: set_takeWhileD)
  have 3: "\<forall>c \<in> set ?b. is_space c"
    by (auto dest: set_takeWhileD)
  have 4: "\<not> is_space (hd (strip g)) \<and> \<not> is_space (last (strip g))" if ne: "strip g \<noteq> []"
  proof
    from ne r have "hd (strip g) = hd ?r" and "?r \<noteq> []"
      by (metis hd_append2, metis append_is_Nil_conv)
    then show "\<not> is_space (hd (strip g))"
      using hd_dropWhile [of is_space g] by simp
    from ne have "dropWhile is_space (rev ?r) \<noteq> []"
      by (simp add: s)
    then have "\<not> is_space (hd (dropWhile is_space (rev ?r)))"
      by (rule hd_dropWhile)
    then show "\<not> is_space (last (strip g))"
      using ne by (simp add: s last_rev)
  qed
  from 1 2 3 4 show ?thesis by blast
qed

text \<open>
  Three texts with a character from 128 on: a no-break space is white space to \<open>\s\<close>
  and to \<open>strip\<close>, and a letter with a diaeresis is a word character.
\<close>

lemma beyond_ascii_examples:
  "dict_get (extract_key_terms (''Borrower:'' @ [CHR 0xA0])) ''borrower'' = PStr ''Not detected''"
  "dict_get (extract_key_terms (''Maturity Date: 1 M'' @ [CHR 0xE4] @ ''rz 2028'')) ''maturity_date''
     = PStr (''1 M'' @ [CHR 0xE4] @ ''rz 2028'')"
  "dict_get (extract_key_terms
      (''Facility Amount:'' @ [CHR 0xA0] @ ''USD 5; Facility Amount: EUR 150,000,000''))
      ''facility_amount'' = PStr ''USD 5''"
  by code_simp+

lemma field_value:
  assumes "(f, q) \<in> set [(''facility_amount'', facility_amount_pattern), (''margin'', margin_pattern),
                          (''maturity_date'', maturity_pattern), (''borrower'', borrower_pattern),
                          (''purpose'', purpose_pattern)]"
  shows "dict_get (extract_key_terms T) f = PStr (py_or (find_first q T) ''Not detected'')"
  using assms by (auto simp: extract_key_terms_def dict_get_def)

lemma field_pattern_ci:
  assumes "(f, q) \<in> set [(''facility_amount'', facility_amount_pattern), (''margin'', margin_pattern),
                          (''maturity_date'', maturity_pattern), (''borrower'', borrower_pattern),
                          (''purpose'', purpose_pattern)]"
  shows "\<forall>a \<in> set (before q @ group1 q). ci_class (cls a)"
  using assms ci_patterns by auto

section \<open>Claims about extract_key_terms\<close>

text \<open>
  C6. A text in which none of the five labels occurs (in whatever letter case, as the
  patterns are matched) gives the sentinel for all five fields; a text in which no
  trigger phrase occurs gives five failed checks; the empty text does both. The functions
  are total, so no input makes them fail.
\<close>

theorem extract_and_check_nothing_found:
  "((\<forall>l \<in> set [''Facility Amount:'', ''Interest Margin:'', ''Maturity Date:'', ''Borrower:'',
                   ''Purpose:'']. \<not> ci_occurs l T)
      \<longrightarrow> extract_key_terms T =
            [(''facility_amount'', PStr ''Not detected''), (''margin'', PStr ''Not detected''),
             (''maturity_date'', PStr ''Not detected''), (''borrower'', PStr ''Not detected''),
             (''purpose'', PStr ''Not detected'')])
   \<and> ((\<forall>k \<in> set [''use of proceeds'', ''proceeds of the facility'', ''shall be applied towards'',
                    ''green project'', ''sustainability objective'', ''environmental objective'',
                    ''renewable energy'', ''energy efficiency'', ''climate'',
                    ''key performance indicator'', ''kpi'', ''sustainability performance target'',
                    ''performance target'',
                    ''reporting'', ''annual report'', ''sustainability report'', ''periodic report'',
                    ''second party opinion'', ''external review'', ''external verifier'',
                    ''assurance provider'']. \<not> ci_occurs k T)
      \<longrightarrow> map passed (run_esg_checks T) = [False, False, False, False, False])
   \<and> extract_key_terms [] =
            [(''facility_amount'', PStr ''Not detected''), (''margin'', PStr ''Not detected''),
             (''maturity_date'', PStr ''Not detected''), (''borrower'', PStr ''Not detected''),
             (''purpose'', PStr ''Not detected'')]
   \<and> map passed (run_esg_checks []) = [False, False, False, False, False]"
proof (intro conjI impI)
  assume "\<forall>l \<in> set [''Facility Amount:'', ''Interest Margin:'', ''Maturity Date:'', ''Borrower:'',
                   ''Purpose:'']. \<not> ci_occurs l T"
  then have "find_first facility_amount_pattern T = None"
    and "find_first margin_pattern T = None"
    and "find_first maturity_pattern T = None"
    and "find_first borrower_pattern T = None"
    and "find_first purpose_pattern T = None"
    unfolding facility_amount_pattern_def margin_pattern_def maturity_pattern_def
      borrower_pattern_def purpose_pattern_def
    by (simp_all add: find_first_None)
  then show "extract_key_terms T =
            [(''facility_amount'', PStr ''Not detected''), (''margin'', PStr ''Not detected''),
             (''maturity_date'', PStr ''Not detected''), (''borrower'', PStr ''Not detected''),
             (''purpose'', PStr ''Not detected'')]"
    by (simp add: extract_key_terms_def py_or_def)
next
  assume "\<forall>k \<in> set [''use of proceeds'', ''proceeds of the facility'', ''shall be applied towards'',
                    ''green project'', ''sustainability objective'', ''environmental objective'',
                    ''renewable energy'', ''energy efficiency'', ''climate'',
                    ''key performance indicator'', ''kpi'', ''sustainability performance target'',
                    ''performance target'',
                    ''reporting'', ''annual report'', ''sustainability report'', ''periodic report'',
                    ''second party opinion'', ''external review'', ''external verifier'',
                    ''assurance provider'']. \<not> ci_occurs k T"
  then show "map passed (run_esg_checks T) = [False, False, False, False, False]"
    by (simp add: run_esg_checks_def contains_any_iff)
next
  show "extract_key_terms [] =
            [(''facility_amount'', PStr ''Not detected''), (''margin'', PStr ''Not detected''),
             (''maturity_date'', PStr ''Not detected''), (''borrower'', PStr ''Not detected''),
             (''purpose'', PStr ''Not detected'')]"
    by code_simp
  show "map passed (run_esg_checks []) = [False, False, False, False, False]"
    by code_simp
qed

theorem extract_and_check_nothing_found_witness:
  "\<not> list_ex (\<lambda>l. ci_occurs l ''Term sheet, draft 2'')
       [''Facility Amount:'', ''Interest Margin:'', ''Maturity Date:'', ''Borrower:'', ''Purpose:'']
   \<and> extract_key_terms ''Term sheet, draft 2'' =
            [(''facility_amount'', PStr ''Not detected''), (''margin'', PStr ''Not detected''),
             (''maturity_date'', PStr ''Not detected''), (''borrower'', PStr ''Not detected''),
             (''purpose'', PStr ''Not detected'')]
   \<and> map passed (run_esg_checks ''Term sheet, draft 2'') = [False, False, False, False, False]"
proof -
  have h1: "\<forall>l \<in> set [''Facility Amount:'', ''Interest Margin:'', ''Maturity Date:'', ''Borrower:'',
                  ''Purpose:'']. \<not> ci_occurs l ''Term sheet, draft 2''"
    by code_simp
  have h2: "\<forall>k \<in> set [''use of proceeds'', ''proceeds of the facility'', ''shall be applied towards'',
                    ''green project'', ''sustainability objective'', ''environmental objective'',
                    ''renewable energy'', ''energy efficiency'', ''climate'',
                    ''key performance indicator'', ''kpi'', ''sustainability performance target'',
                    ''performance target'',
                    ''reporting'', ''annual report'', ''sustainability report'', ''periodic report'',
                    ''second party opinion'', ''external review'', ''external verifier'',
                    ''assurance provider'']. \<not> ci_occurs k ''Term sheet, draft 2''"
    by code_simp
  note t = extract_and_check_nothing_found [of "''Term sheet, draft 2''"]
  from t have a: "(\<forall>l \<in> set [''Facility Amount:'', ''Interest Margin:'', ''Maturity Date:'', ''Borrower:'',
                  ''Purpose:'']. \<not> ci_occurs l ''Term sheet, draft 2'')
      \<longrightarrow> extract_key_terms ''Term sheet, draft 2'' =
            [(''facility_amount'', PStr ''Not detected''), (''margin'', PStr ''Not detected''),
             (''maturity_date'', PStr ''Not detected''), (''borrower'', PStr ''Not detected''),
             (''purpose'', PStr ''Not detected'')]"
    by (rule conjunct1)
  from t have b: "(\<forall>k \<in> set [''use of proceeds'', ''proceeds of the facility'', ''shall be applied towards'',
                    ''green project'', ''sustainability objective'', ''environmental objective'',
                    ''renewable energy'', ''energy efficiency'', ''climate'',
                    ''key performance indicator'', ''kpi'', ''sustainability performance target'',
                    ''performance target'',
                    ''reporting'', ''annual report'', ''sustainability report'', ''periodic report'',
                    ''second party opinion'', ''external review'', ''external verifier'',
                    ''assurance provider'']. \<not> ci_occurs k ''Term sheet, draft 2'')
      \<longrightarrow> map passed (run_esg_checks ''Term sheet, draft 2'') = [False, False, False, False, False]"
    by (rule conjunct1 [OF conjunct2])
  from a h1 have 1: "extract_key_terms ''Term sheet, draft 2'' =
            [(''facility_amount'', PStr ''Not detected''), (''margin'', PStr ''Not detected''),
             (''maturity_date'', PStr ''Not detected''), (''borrower'', PStr ''Not detected''),
             (''purpose'', PStr ''Not detected'')]"
    by (rule mp)
  from b h2 have 2: "map passed (run_esg_checks ''Term sheet, draft 2'')
      = [False, False, False, False, False]"
    by (rule mp)
  from h1 have 0: "\<not> list_ex (\<lambda>l. ci_occurs l ''Term sheet, draft 2'')
       [''Facility Amount:'', ''Interest Margin:'', ''Maturity Date:'', ''Borrower:'', ''Purpose:'']"
    by (simp only: list_ex_iff) blast
  from 0 1 2 show ?thesis by (intro conjI)
qed

text \<open>
  C9. The result has the five keys, and every value is a string that is not empty (the
  sentinel, or what was captured). When a pattern matches and its group is white space
  only, so that \<open>strip\<close> leaves nothing, the value stored is the sentinel.
\<close>

theorem extract_key_terms_values:
  "dict_keys (extract_key_terms T) =
     [''facility_amount'', ''margin'', ''maturity_date'', ''borrower'', ''purpose'']
   \<and> (\<forall>(f, v) \<in> set (extract_key_terms T). \<exists>s. v = PStr s \<and> s \<noteq> [])
   \<and> (\<forall>(f, p) \<in> set [(''facility_amount'', facility_amount_pattern), (''margin'', margin_pattern),
                         (''maturity_date'', maturity_pattern), (''borrower'', borrower_pattern),
                         (''purpose'', purpose_pattern)].
         \<forall>g. re_search p T = Some g \<and> strip g = []
              \<longrightarrow> dict_get (extract_key_terms T) f = PStr ''Not detected'')"
proof (intro conjI)
  show "dict_keys (extract_key_terms T) =
     [''facility_amount'', ''margin'', ''maturity_date'', ''borrower'', ''purpose'']"
    by (simp add: extract_key_terms_def dict_keys_def)
  have ne: "py_or x ''Not detected'' \<noteq> []" for x
    by (simp add: py_or_def split: option.split)
  show "\<forall>(f, v) \<in> set (extract_key_terms T). \<exists>s. v = PStr s \<and> s \<noteq> []"
    by (simp add: extract_key_terms_def ne)
  have st: "dict_get (extract_key_terms T) f = PStr ''Not detected''"
    if "(f, p) \<in> set [(''facility_amount'', facility_amount_pattern), (''margin'', margin_pattern),
                         (''maturity_date'', maturity_pattern), (''borrower'', borrower_pattern),
                         (''purpose'', purpose_pattern)]"
      and "re_search p T = Some g" and "strip g = []" for f p g
  proof -
    from that(2,3) have "py_or (find_first p T) ''Not detected'' = ''Not detected''"
      by (simp add: find_first_def py_or_def)
    with that(1) show ?thesis
      by (auto simp: extract_key_terms_def dict_get_def)
  qed
  then show "\<forall>(f, p) \<in> set [(''facility_amount'', facility_amount_pattern), (''margin'', margin_pattern),
                         (''maturity_date'', maturity_pattern), (''borrower'', borrower_pattern),
                         (''purpose'', purpose_pattern)].
         \<forall>g. re_search p T = Some g \<and> strip g = []
              \<longrightarrow> dict_get (extract_key_terms T) f = PStr ''Not detected''"
    by blast
qed

theorem extract_key_terms_values_witness:
  "re_search borrower_pattern ''Borrower:  '' = Some '' '' \<and> strip '' '' = []
   \<and> dict_get (extract_key_terms ''Borrower:  '') ''borrower'' = PStr ''Not detected''"
proof -
  have h: "re_search borrower_pattern ''Borrower:  '' = Some '' '' \<and> strip '' '' = []"
    by code_simp
  have m: "(''borrower'', borrower_pattern)
      \<in> set [(''facility_amount'', facility_amount_pattern), (''margin'', margin_pattern),
             (''maturity_date'', maturity_pattern), (''borrower'', borrower_pattern),
             (''purpose'', purpose_pattern)]"
    by simp
  note t = extract_key_terms_values [of "''Borrower:  ''"]
  have 1: "dict_get (extract_key_terms ''Borrower:  '') ''borrower'' = PStr ''Not detected''"
    using t h m by blast
  from h 1 show ?thesis by (intro conjI) simp_all
qed

text \<open>
  C7, as the code has it. The search returns the group of the match at the leftmost
  position where the pattern matches, whatever matches further right. For each of the
  five fields: the search does not tell letter cases apart (two texts equal up to letter
  case give groups equal up to letter case, or both none); with no match the field is
  the sentinel; with a match of group \<open>h\<close> the field is \<open>h\<close> without the white
  space at its two ends, or the sentinel if nothing else is left. A text
  \<open>u @ ''Facility Amount: EUR 150,000,000'' @ v\<close> gives the amount
  \<open>EUR 150,000,000\<close> when the pattern matches at no position inside \<open>u\<close> and \<open>v\<close>
  does not go on with a digit, a comma or a full stop.
\<close>

theorem find_first_leftmost_match:
  "(re_search p T = Some g \<longleftrightarrow>
      (\<exists>i \<le> length T. match_at p (drop i T) = Some g
                         \<and> (\<forall>j < i. match_at p (drop j T) = None)))
   \<and> (\<forall>(f, q) \<in> set [(''facility_amount'', facility_amount_pattern), (''margin'', margin_pattern),
                         (''maturity_date'', maturity_pattern), (''borrower'', borrower_pattern),
                         (''purpose'', purpose_pattern)].
         (map lower_char T = map lower_char T'
            \<longrightarrow> map_option (map lower_char) (re_search q T)
                  = map_option (map lower_char) (re_search q T'))
       \<and> (re_search q T = None \<longrightarrow> dict_get (extract_key_terms T) f = PStr ''Not detected'')
       \<and> (\<forall>h. re_search q T = Some h \<longrightarrow>
             (\<exists>a s b. h = a @ s @ b
                \<and> (\<forall>c \<in> set a. is_space c) \<and> (\<forall>c \<in> set b. is_space c)
                \<and> (s = [] \<or> (\<not> is_space (hd s) \<and> \<not> is_space (last s)))
                \<and> dict_get (extract_key_terms T) f
                     = PStr (if s = [] then ''Not detected'' else s))))
   \<and> ((\<forall>j < length u. match_at facility_amount_pattern
                           (drop j (u @ ''Facility Amount: EUR 150,000,000'' @ v)) = None)
        \<and> (v = [] \<or> \<not> (is_digit (hd v) \<or> hd v = CHR '','' \<or> hd v = CHR ''.''))
      \<longrightarrow> dict_get (extract_key_terms (u @ ''Facility Amount: EUR 150,000,000'' @ v))
            ''facility_amount'' = PStr ''EUR 150,000,000'')"
proof (intro conjI)
  show "re_search p T = Some g \<longleftrightarrow>
      (\<exists>i \<le> length T. match_at p (drop i T) = Some g
                         \<and> (\<forall>j < i. match_at p (drop j T) = None))"
    by (rule re_search_Some_iff)
next
  have "(map lower_char T = map lower_char T'
            \<longrightarrow> map_option (map lower_char) (re_search q T)
                  = map_option (map lower_char) (re_search q T'))
       \<and> (re_search q T = None \<longrightarrow> dict_get (extract_key_terms T) f = PStr ''Not detected'')
       \<and> (\<forall>h. re_search q T = Some h \<longrightarrow>
             (\<exists>a s b. h = a @ s @ b
                \<and> (\<forall>c \<in> set a. is_space c) \<and> (\<forall>c \<in> set b. is_space c)
                \<and> (s = [] \<or> (\<not> is_space (hd s) \<and> \<not> is_space (last s)))
                \<and> dict_get (extract_key_terms T) f
                     = PStr (if s = [] then ''Not detected'' else s)))"
    if m: "(f, q) \<in> set [(''facility_amount'', facility_amount_pattern), (''margin'', margin_pattern),
                          (''maturity_date'', maturity_pattern), (''borrower'', borrower_pattern),
                          (''purpose'', purpose_pattern)]" for f q
  proof (intro conjI impI allI)
    assume "map lower_char T = map lower_char T'"
    with field_pattern_ci [OF m]
    show "map_option (map lower_char) (re_search q T)
            = map_option (map lower_char) (re_search q T')"
      by (rule re_search_case_insensitive)
  next
    assume "re_search q T = None"
    then have "py_or (find_first q T) ''Not detected'' = ''Not detected''"
      by (simp add: find_first_def py_or_def)
    then show "dict_get (extract_key_terms T) f = PStr ''Not detected''"
      by (simp only: field_value [OF m])
  next
    fix h assume "re_search q T = Some h"
    then have "py_or (find_first q T) ''Not detected''
                 = (if strip h = [] then ''Not detected'' else strip h)"
      by (simp add: find_first_def py_or_def)
    then have "dict_get (extract_key_terms T) f
                 = PStr (if strip h = [] then ''Not detected'' else strip h)"
      by (simp only: field_value [OF m])
    moreover obtain a b where "h = a @ strip h @ b" and "\<forall>c \<in> set a. is_space c"
      and "\<forall>c \<in> set b. is_space c"
      and "strip h = [] \<or> (\<not> is_space (hd (strip h)) \<and> \<not> is_space (last (strip h)))"
      using strip_spec [of h] by blast
    ultimately show "\<exists>a s b. h = a @ s @ b
                \<and> (\<forall>c \<in> set a. is_space c) \<and> (\<forall>c \<in> set b. is_space c)
                \<and> (s = [] \<or> (\<not> is_space (hd s) \<and> \<not> is_space (last s)))
                \<and> dict_get (extract_key_terms T) f
                     = PStr (if s = [] then ''Not detected'' else s)"
      by blast
  qed
  then show "\<forall>(f, q) \<in> set [(''facility_amount'', facility_amount_pattern), (''margin'', margin_pattern),
                         (''maturity_date'', maturity_pattern), (''borrower'', borrower_pattern),
                         (''purpose'', purpose_pattern)].
         (map lower_char T = map lower_char T'
            \<longrightarrow> map_option (map lower_char) (re_search q T)
                  = map_option (map lower_char) (re_search q T'))
       \<and> (re_search q T = None \<longrightarrow> dict_get (extract_key_terms T) f = PStr ''Not detected'')
       \<and> (\<forall>h. re_search q T = Some h \<longrightarrow>
             (\<exists>a s b. h = a @ s @ b
                \<and> (\<forall>c \<in> set a. is_space c) \<and> (\<forall>c \<in> set b. is_space c)
                \<and> (s = [] \<or> (\<not> is_space (hd s) \<and> \<not> is_space (last s)))
                \<and> dict_get (extract_key_terms T) f
                     = PStr (if s = [] then ''Not detected'' else s)))"
    by blast
next
  show "(\<forall>j < length u. match_at facility_amount_pattern
                           (drop j (u @ ''Facility Amount: EUR 150,000,000'' @ v)) = None)
        \<and> (v = [] \<or> \<not> (is_digit (hd v) \<or> hd v = CHR '','' \<or> hd v = CHR ''.''))
      \<longrightarrow> dict_get (extract_key_terms (u @ ''Facility Amount: EUR 150,000,000'' @ v))
            ''facility_amount'' = PStr ''EUR 150,000,000''"
    using facility_extracted [of u v] by blast
qed

theorem find_first_leftmost_match_witness:
  "list_all (\<lambda>j. match_at facility_amount_pattern
        (drop j (''1. '' @ ''Facility Amount: EUR 150,000,000'' @ ''; Facility Amount: USD 5'')) = None)
        [0 ..< length ''1. '']
   \<and> \<not> is_digit (hd ''; Facility Amount: USD 5'')
   \<and> dict_get (extract_key_terms
        (''1. '' @ ''Facility Amount: EUR 150,000,000'' @ ''; Facility Amount: USD 5''))
        ''facility_amount'' = PStr ''EUR 150,000,000''
   \<and> map lower_char ''facility AMOUNT:  eur 5 '' = map lower_char ''Facility Amount:  EUR 5 ''
   \<and> re_search facility_amount_pattern ''Facility Amount:  EUR 5 '' = Some ''EUR 5''
   \<and> map_option (map lower_char) (re_search facility_amount_pattern ''facility AMOUNT:  eur 5 '')
       = Some ''eur 5''"
proof -
  have h0: "list_all (\<lambda>j. match_at facility_amount_pattern
        (drop j (''1. '' @ ''Facility Amount: EUR 150,000,000'' @ ''; Facility Amount: USD 5'')) = None)
        [0 ..< length ''1. '']"
    by code_simp
  then have h1: "\<forall>j < length ''1. ''. match_at facility_amount_pattern
        (drop j (''1. '' @ ''Facility Amount: EUR 150,000,000'' @ ''; Facility Amount: USD 5'')) = None"
    by (simp only: all_less_list)
  have d: "\<not> is_digit (hd ''; Facility Amount: USD 5'')"
    by code_simp
  then have h2: "''; Facility Amount: USD 5'' = []
        \<or> \<not> (is_digit (hd ''; Facility Amount: USD 5'') \<or> hd ''; Facility Amount: USD 5'' = CHR '',''
              \<or> hd ''; Facility Amount: USD 5'' = CHR ''.'')"
    by simp
  note t = find_first_leftmost_match
    [where u = "''1. ''" and v = "''; Facility Amount: USD 5''"
       and T = "''facility AMOUNT:  eur 5 ''" and T' = "''Facility Amount:  EUR 5 ''"]
  from t have "(\<forall>j < length ''1. ''. match_at facility_amount_pattern
        (drop j (''1. '' @ ''Facility Amount: EUR 150,000,000'' @ ''; Facility Amount: USD 5'')) = None)
      \<and> (''; Facility Amount: USD 5'' = []
        \<or> \<not> (is_digit (hd ''; Facility Amount: USD 5'') \<or> hd ''; Facility Amount: USD 5'' = CHR '',''
              \<or> hd ''; Facility Amount: USD 5'' = CHR ''.''))
      \<longrightarrow> dict_get (extract_key_terms
        (''1. '' @ ''Facility Amount: EUR 150,000,000'' @ ''; Facility Amount: USD 5''))
        ''facility_amount'' = PStr ''EUR 150,000,000''"
    by (rule conjunct2 [OF conjunct2])
  moreover note h1 h2
  ultimately have 1: "dict_get (extract_key_terms
        (''1. '' @ ''Facility Amount: EUR 150,000,000'' @ ''; Facility Amount: USD 5''))
        ''facility_amount'' = PStr ''EUR 150,000,000''"
    by (elim impE) (intro conjI, assumption+)
  have l: "map lower_char ''facility AMOUNT:  eur 5 '' = map lower_char ''Facility Amount:  EUR 5 ''"
    by code_simp
  have r: "re_search facility_amount_pattern ''Facility Amount:  EUR 5 '' = Some ''EUR 5''"
    by code_simp
  have e: "map lower_char ''EUR 5'' = ''eur 5''"
    by code_simp
  note c = t [THEN conjunct2, THEN conjunct1, THEN bspec, OF list.set_intros(1),
      unfolded prod.case, THEN conjunct1, THEN mp, OF l]
  have 2: "map_option (map lower_char)
        (re_search facility_amount_pattern ''facility AMOUNT:  eur 5 '') = Some ''eur 5''"
    by (simp only: c r option.map e)
  from h0 d 1 l r 2 show ?thesis by (intro conjI)
qed

text \<open>
  C7, as the specification states it, fails. Both texts below contain
  \<open>Facility Amount: EUR 150,000,000\<close>. From the first the amount extracted is the
  longer \<open>EUR 150,000,000.00\<close>, since the last class of the pattern is greedy; from
  the second it is \<open>USD 5\<close>, the group of the match further left.
\<close>

theorem facility_amount_scenario_counterexample:
  "str_contains ''Facility Amount: EUR 150,000,000.00'' ''Facility Amount: EUR 150,000,000''
   \<and> dict_get (extract_key_terms ''Facility Amount: EUR 150,000,000.00'') ''facility_amount''
       = PStr ''EUR 150,000,000.00''
   \<and> dict_get (extract_key_terms ''Facility Amount: EUR 150,000,000.00'') ''facility_amount''
       \<noteq> PStr ''EUR 150,000,000''
   \<and> str_contains ''Facility Amount: USD 5; Facility Amount: EUR 150,000,000''
        ''Facility Amount: EUR 150,000,000''
   \<and> dict_get (extract_key_terms ''Facility Amount: USD 5; Facility Amount: EUR 150,000,000'')
        ''facility_amount'' = PStr ''USD 5''"
  by code_simp

section \<open>Claims about analyze_docs\<close>

text \<open>
  C4. The response is the record of the four components: the terms extracted from each
  text, their comparison, and the checks of the second text. The checks are those of the
  second text whatever the first upload is.
\<close>

theorem analyze_docs_composition:
  "analyze_docs dec d1 d2 =
     \<lparr>key_terms_v1 = extract_key_terms (dec d1),
      key_terms_v2 = extract_key_terms (dec d2),
      changes = compare_terms (extract_key_terms (dec d1)) (extract_key_terms (dec d2)),
      esg_checks = run_esg_checks (dec d2)\<rparr>
   \<and> esg_checks (analyze_docs dec d1 d2) = esg_checks (analyze_docs dec d1' d2)"
  by (simp add: analyze_docs_def Let_def)

theorem analyze_docs_composition_witness:
  "esg_checks (analyze_docs (\<lambda>b. b) ''KPI report'' ''Borrower: A'') = run_esg_checks ''Borrower: A''
   \<and> map passed (esg_checks (analyze_docs (\<lambda>b. b) ''KPI report'' ''Borrower: A''))
       = [False, False, False, False, False]
   \<and> map passed (run_esg_checks ''KPI report'') = [False, False, True, False, False]"
proof -
  have 1: "esg_checks (analyze_docs (\<lambda>b. b) ''KPI report'' ''Borrower: A'')
           = run_esg_checks ''Borrower: A''"
    by (subst conjunct1 [OF analyze_docs_composition]) simp
  have 2: "map passed (run_esg_checks ''Borrower: A'') = [False, False, False, False, False]"
    by code_simp
  have 3: "map passed (run_esg_checks ''KPI report'') = [False, False, True, False, False]"
    by code_simp
  from 1 2 3 show ?thesis by simp
qed

end
